theory Spec2Isabelle
  imports Main "HOL-Library.AList"
begin

section \<open>The wheel resolver (\<open>roulette_neighbors\<close>, Untitled2.py lines 7-43)\<close>

text \<open>
  Python integers are unbounded, so numbers and neighbour counts are \<open>int\<close>.
  Every \<open>raise ValueError(...)\<close> of the source is one constructor of \<open>error\<close>; the
  constructor carries the value that the f-string of the message embeds (the number, or
  the raw segment). \<open>ValueNotInList\<close> is the \<open>ValueError\<close> of \<open>list.index\<close>.
\<close>

datatype error =
    NumberOutOfRange int
  | NegativeNeighborCount int
  | ValueNotInList int
  | InvalidPairTokens string
  | InvalidSingleToken string
  | InvalidSegmentFormat string

definition roulette_wheel :: "int list" where
  "roulette_wheel =
    [0, 32, 15, 19, 4, 21, 2, 25, 17, 34, 6,
     27, 13, 36, 11, 30, 8, 23, 10, 5, 24,
     16, 33, 1, 20, 14, 31, 9, 22, 18, 29,
     7, 28, 12, 35, 3, 26]"

definition total_numbers :: nat where
  "total_numbers = length roulette_wheel"

text \<open>\<open>list.index(x)\<close>: the first position holding \<open>x\<close>, \<open>None\<close> where Python raises.\<close>

fun index_of :: "'a \<Rightarrow> 'a list \<Rightarrow> nat option" where
  "index_of x [] = None"
| "index_of x (y # ys) =
     (if x = y then Some 0 else map_option Suc (index_of x ys))"

text \<open>
  The list comprehension of lines 37-40. \<open>range(-c, c + 1)\<close> is \<open>[-c..c]\<close>; Python's
  \<open>%\<close> with a positive right operand is HOL's \<open>mod\<close> on \<open>int\<close>, so the subscript is
  never negative and never reaches \<open>total_numbers\<close>.
\<close>

definition neighbors :: "nat \<Rightarrow> int \<Rightarrow> int list" where
  "neighbors index neighbor_count =
     map (\<lambda>i. roulette_wheel ! nat ((int index + i) mod int total_numbers))
         [- neighbor_count .. neighbor_count]"

text \<open>
  The \<open>for\<close> loop of lines 29-41, with the dictionary \<open>result\<close> as its state. A Python
  dictionary keeps insertion order and an assignment to an existing key replaces the value
  in place: that is \<open>AList.update\<close> on an association list.
\<close>

fun resolve_loop ::
  "(int \<times> int) list \<Rightarrow> (int \<times> int list) list \<Rightarrow> error + (int \<times> int list) list" where
  "resolve_loop [] result = Inr result"
| "resolve_loop ((number, neighbor_count) # rest) result =
     (if number \<notin> set roulette_wheel then Inl (NumberOutOfRange number)
      else if neighbor_count < 0 then Inl (NegativeNeighborCount number)
      else case index_of number roulette_wheel of
             None \<Rightarrow> Inl (ValueNotInList number)
           | Some index \<Rightarrow>
               resolve_loop rest
                 (AList.update number (neighbors index neighbor_count) result))"

definition roulette_neighbors ::
  "(int \<times> int) list \<Rightarrow> error + (int \<times> int list) list" where
  "roulette_neighbors number_neighbor_pairs = resolve_loop number_neighbor_pairs []"

section \<open>The input parser (\<open>parse_input\<close>, Untitled2.py lines 45-76)\<close>

text \<open>
  A Python \<open>str\<close> is modelled as a \<open>string\<close> whose characters are the code points
  below 256. On that range the characters that \<open>str.strip()\<close> and \<open>str.split()\<close>
  treat as whitespace are the twelve of \<open>is_space\<close>, and the only characters that
  \<open>int()\<close> accepts as decimal digits are \<open>0\<close> to \<open>9\<close>.
\<close>

definition is_space :: "char \<Rightarrow> bool" where
  "is_space c \<longleftrightarrow>
     c \<in> set [CHR 0x09, CHR 0x0A, CHR 0x0B, CHR 0x0C, CHR 0x0D,
              CHR 0x1C, CHR 0x1D, CHR 0x1E, CHR 0x1F, CHR '' '',
              CHR 0x85, CHR 0xA0]"

text \<open>\<open>s.strip()\<close>: whitespace removed at both ends.\<close>

definition strip :: "string \<Rightarrow> string" where
  "strip s = rev (dropWhile is_space (rev (dropWhile is_space s)))"

text \<open>
  \<open>s.split(sep)\<close> for a one-character separator: every occurrence cuts, empty pieces
  are kept, and the empty string gives one empty piece.
\<close>

fun split_on :: "char \<Rightarrow> string \<Rightarrow> string list" where
  "split_on sep [] = [[]]"
| "split_on sep (c # cs) =
     (if c = sep then [] # split_on sep cs
      else case split_on sep cs of
             [] \<Rightarrow> [[c]]
           | w # ws \<Rightarrow> (c # w) # ws)"

text \<open>
  \<open>s.split()\<close> without argument: the maximal runs of non-whitespace characters, in order;
  \<open>w\<close> is the run being read.
\<close>

fun split_ws_from :: "string \<Rightarrow> string \<Rightarrow> string list" where
  "split_ws_from w [] = (if w = [] then [] else [w])"
| "split_ws_from w (c # cs) =
     (if is_space c
      then (if w = [] then split_ws_from [] cs else w # split_ws_from [] cs)
      else split_ws_from (w @ [c]) cs)"

definition split_ws :: "string \<Rightarrow> string list" where
  "split_ws s = split_ws_from [] s"

text \<open>
  \<open>int(s)\<close> in base 10: surrounding whitespace is dropped, then an optional sign, then
  one or more digits, where a single underscore may stand between two digits. \<open>None\<close> is
  the \<open>ValueError\<close>. Leading zeros are accepted. (The limit on the number of digits
  that recent interpreters add is a setting of the interpreter and is not modelled.)
\<close>

definition is_digit :: "char \<Rightarrow> bool" where
  "is_digit c \<longleftrightarrow> c \<in> set ''0123456789''"

definition digit_val :: "char \<Rightarrow> int" where
  "digit_val c = int (of_char c) - 48"

fun digits_from :: "int \<Rightarrow> string \<Rightarrow> int option" where
  "digits_from acc [] = Some acc"
| "digits_from acc [c] = (if is_digit c then Some (10 * acc + digit_val c) else None)"
| "digits_from acc (c # d # ds) =
     (if is_digit c then digits_from (10 * acc + digit_val c) (d # ds)
      else if c = CHR ''_'' \<and> is_digit d then digits_from (10 * acc + digit_val d) ds
      else None)"

definition digits :: "string \<Rightarrow> int option" where
  "digits s =
     (case s of
        [] \<Rightarrow> None
      | c # cs \<Rightarrow> if is_digit c then digits_from (digit_val c) cs else None)"

definition py_int :: "string \<Rightarrow> int option" where
  "py_int s =
     (case strip s of
        [] \<Rightarrow> None
      | c # cs \<Rightarrow>
          if c = CHR ''-'' then map_option uminus (digits cs)
          else if c = CHR ''+'' then digits cs
          else digits (c # cs))"

text \<open>
  The body of the loop of lines 59-75 for one segment \<open>pair\<close>. The two \<open>int\<close> calls of
  the first branch run in order inside one \<open>try\<close>, so a failure of either gives the same
  error; every error carries the segment as it was cut, before \<open>strip\<close>.
\<close>

definition parse_segment :: "string \<Rightarrow> int \<Rightarrow> error + (int \<times> int)" where
  "parse_segment pair default_neighbors =
     (let parts = split_ws (strip pair) in
      if length parts = 2 then
        (case py_int (strip (parts ! 0)) of
           None \<Rightarrow> Inl (InvalidPairTokens pair)
         | Some number \<Rightarrow>
             (case py_int (strip (parts ! 1)) of
                None \<Rightarrow> Inl (InvalidPairTokens pair)
              | Some neighbor_count \<Rightarrow> Inr (number, neighbor_count)))
      else if length parts = 1 then
        (case py_int (strip (parts ! 0)) of
           None \<Rightarrow> Inl (InvalidSingleToken pair)
         | Some number \<Rightarrow> Inr (number, default_neighbors))
      else Inl (InvalidSegmentFormat pair))"

text \<open>The loop over the segments, with the list \<open>number_neighbor_pairs\<close> as its state.\<close>

fun parse_loop ::
  "string list \<Rightarrow> int \<Rightarrow> (int \<times> int) list \<Rightarrow> error + (int \<times> int) list" where
  "parse_loop [] default_neighbors number_neighbor_pairs = Inr number_neighbor_pairs"
| "parse_loop (pair # pairs) default_neighbors number_neighbor_pairs =
     (case parse_segment pair default_neighbors of
        Inl e \<Rightarrow> Inl e
      | Inr p \<Rightarrow> parse_loop pairs default_neighbors (number_neighbor_pairs @ [p]))"

definition parse_input :: "string \<Rightarrow> int \<Rightarrow> error + (int \<times> int) list" where
  "parse_input input_str default_neighbors =
     parse_loop (split_on CHR '','' input_str) default_neighbors []"

section \<open>The messages of the errors\<close>

text \<open>\<open>str(n)\<close> for an integer, as the f-strings of lines 31 and 33 print it.\<close>

fun str_nat :: "nat \<Rightarrow> string" where
  "str_nat n =
     (if n < 10 then [char_of (48 + n)]
      else str_nat (n div 10) @ [char_of (48 + n mod 10)])"

definition str_int :: "int \<Rightarrow> string" where
  "str_int i = (if i < 0 then CHR ''-'' # str_nat (nat (- i)) else str_nat (nat i))"

definition quoted :: "string \<Rightarrow> string" where
  "quoted s = [CHR 0x27] @ s @ [CHR 0x27]"

fun error_message :: "error \<Rightarrow> string" where
  "error_message (NumberOutOfRange number) =
     ''Invalid number: '' @ str_int number @ ''. Must be between 0 and 36.''"
| "error_message (NegativeNeighborCount number) =
     ''Neighbor count for number '' @ str_int number @ '' must be non-negative.''"
| "error_message (ValueNotInList number) = str_int number @ '' is not in list''"
| "error_message (InvalidPairTokens pair) =
     ''Invalid input format for pair '' @ quoted pair @
     ''. Ensure numbers and counts are integers.''"
| "error_message (InvalidSingleToken pair) =
     ''Invalid number format for '' @ quoted pair @ ''. Ensure it's an integer.''"
| "error_message (InvalidSegmentFormat pair) =
     ''Invalid format for '' @ quoted pair @ ''. Use 'number count' or 'number'.''"

section \<open>Facts about the wheel and the resolver\<close>

lemma wheel_length: "length roulette_wheel = 37"
  by (simp add: roulette_wheel_def)

lemma total_numbers_37: "total_numbers = 37"
  by (simp add: total_numbers_def wheel_length)

lemma wheel_sorted: "sort roulette_wheel = [0..36]"
  by code_simp

lemma wheel_set: "set roulette_wheel = {0..36}"
proof -
  have "set roulette_wheel = set (sort roulette_wheel)" by simp
  also have "\<dots> = set [0..36]" by (simp only: wheel_sorted)
  also have "\<dots> = {0..36}" by simp
  finally show ?thesis .
qed

lemma wheel_distinct: "distinct roulette_wheel"
  by (simp add: roulette_wheel_def)

lemma index_of_Some: "index_of x xs = Some i \<Longrightarrow> i < length xs \<and> xs ! i = x"
  by (induction xs arbitrary: i) (auto split: if_splits)

lemma index_of_first: "index_of x xs = Some i \<Longrightarrow> j < i \<Longrightarrow> xs ! j \<noteq> x"
proof (induction xs arbitrary: i j)
  case Nil
  then show ?case by simp
next
  case (Cons y ys)
  then show ?case by (cases j) (auto split: if_splits)
qed

lemma index_of_None: "index_of x xs = None \<longleftrightarrow> x \<notin> set xs"
  by (induction xs) auto

lemma index_of_mem: "x \<in> set xs \<Longrightarrow> \<exists>i. index_of x xs = Some i"
  using index_of_None [of x xs] by (cases "index_of x xs") auto

lemma neighbors_subscript_in_range:
  "nat ((int index + i) mod int total_numbers) < length roulette_wheel"
  by (simp add: total_numbers_37 wheel_length nat_less_iff)

lemma neighbors_length: "0 \<le> r \<Longrightarrow> length (neighbors i r) = nat (2 * r + 1)"
  by (simp add: neighbors_def)

lemma neighbors_middle:
  assumes "0 \<le> r" and "i < 37"
  shows "neighbors i r ! nat r = roulette_wheel ! i"
proof -
  have len: "nat r < length [- r .. r]" using assms by simp
  have "[- r .. r] ! nat r = - r + int (nat r)"
    using assms by (intro nth_upto) simp
  then have mid: "[- r .. r] ! nat r = 0" using assms by simp
  have "neighbors i r ! nat r
          = roulette_wheel ! nat ((int i + [- r .. r] ! nat r) mod int total_numbers)"
    unfolding neighbors_def using len by (rule nth_map)
  also have "\<dots> = roulette_wheel ! i"
    using assms by (simp add: mid total_numbers_37)
  finally show ?thesis .
qed

lemma neighbors_zero: "i < 37 \<Longrightarrow> neighbors i 0 = [roulette_wheel ! i]"
  by (simp add: neighbors_def total_numbers_37)

lemma resolve_loop_append:
  "resolve_loop (ps @ qs) acc =
     (case resolve_loop ps acc of Inl e \<Rightarrow> Inl e | Inr m \<Rightarrow> resolve_loop qs m)"
  by (induction ps acc rule: resolve_loop.induct) (auto split: option.splits)

lemma resolve_loop_keys:
  "resolve_loop ps acc = Inr m \<Longrightarrow> fst ` set m = fst ` set acc \<union> fst ` set ps"
proof (induction ps acc rule: resolve_loop.induct)
  case (1 result)
  then show ?case by simp
next
  case (2 number neighbor_count rest result)
  then show ?case
    by (auto simp: dom_update split: if_splits option.splits)
qed

lemma resolve_loop_other:
  "resolve_loop ps acc = Inr m \<Longrightarrow> k \<notin> fst ` set ps \<Longrightarrow> map_of m k = map_of acc k"
proof (induction ps acc rule: resolve_loop.induct)
  case (1 result)
  then show ?case by simp
next
  case (2 number neighbor_count rest result)
  then show ?case
    by (auto simp: update_conv' split: if_splits option.splits)
qed

lemma resolve_loop_distinct:
  "resolve_loop ps acc = Inr m \<Longrightarrow> distinct (map fst acc) \<Longrightarrow> distinct (map fst m)"
proof (induction ps acc rule: resolve_loop.induct)
  case (1 result)
  then show ?case by simp
next
  case (2 number neighbor_count rest result)
  then show ?case
    by (auto simp: distinct_update split: if_splits option.splits)
qed

lemma resolve_single:
  assumes "0 \<le> n" "n \<le> 36" "0 \<le> r"
  shows "\<exists>i. index_of n roulette_wheel = Some i \<and> i < 37 \<and> roulette_wheel ! i = n \<and>
             roulette_neighbors [(n, r)] = Inr [(n, neighbors i r)]"
proof -
  have mem: "n \<in> set roulette_wheel" using assms by (simp add: wheel_set)
  then obtain i where i: "index_of n roulette_wheel = Some i"
    using index_of_mem by fastforce
  then have "i < 37 \<and> roulette_wheel ! i = n"
    using index_of_Some [OF i] by (simp add: wheel_length)
  moreover have "roulette_neighbors [(n, r)] = Inr [(n, neighbors i r)]"
    using mem assms i by (simp add: roulette_neighbors_def)
  ultimately show ?thesis using i by blast
qed

lemma resolve_loop_valid:
  "\<forall>p\<in>set ps. fst p \<in> set roulette_wheel \<and> 0 \<le> snd p \<Longrightarrow> \<exists>m. resolve_loop ps acc = Inr m"
proof (induction ps acc rule: resolve_loop.induct)
  case (1 result)
  then show ?case by simp
next
  case (2 number neighbor_count rest result)
  then obtain i where "index_of number roulette_wheel = Some i"
    using index_of_mem [of number roulette_wheel] by auto
  with 2 show ?case by simp
qed

lemma neighbors_nth:
  assumes "0 \<le> r" and "k < nat (2 * r + 1)"
  shows "neighbors i r ! k = roulette_wheel ! nat ((int i + (- r + int k)) mod 37)"
proof -
  have len: "k < length [- r .. r]" using assms by simp
  have "[- r .. r] ! k = - r + int k"
    using assms by (intro nth_upto) linarith
  moreover have "neighbors i r ! k
          = roulette_wheel ! nat ((int i + [- r .. r] ! k) mod int total_numbers)"
    unfolding neighbors_def using len by (rule nth_map)
  ultimately show ?thesis by (simp add: total_numbers_37)
qed

lemma nat_int_mod_37: "nat (int n mod 37) = n mod 37"
  by (simp add: nat_mod_distrib)

lemma half_wheel_index:
  "nat ((int i + (- 18 + int k)) mod 37) = ((i + 19) mod 37 + k) mod 37"
proof -
  have "(int i + (- 18 + int k) + 37) mod 37 = (int i + (- 18 + int k)) mod 37"
    by (rule mod_add_self2)
  moreover have "int i + (- 18 + int k) + 37 = int (i + 19 + k)" by simp
  ultimately have "(int i + (- 18 + int k)) mod 37 = int (i + 19 + k) mod 37"
    by (simp only:)
  then have "nat ((int i + (- 18 + int k)) mod 37) = (i + 19 + k) mod 37"
    by (simp only: nat_int_mod_37)
  also have "\<dots> = ((i + 19) mod 37 + k) mod 37" by (simp add: mod_add_left_eq)
  finally show ?thesis .
qed

lemma neighbors_half_wheel:
  "neighbors i 18 = rotate ((i + 19) mod 37) roulette_wheel"
proof (rule nth_equalityI)
  show "length (neighbors i 18) = length (rotate ((i + 19) mod 37) roulette_wheel)"
    using neighbors_length [of 18 i] by (simp add: wheel_length)
next
  fix k assume "k < length (neighbors i 18)"
  then have k: "k < 37" using neighbors_length [of 18 i] by simp
  have "neighbors i 18 ! k = roulette_wheel ! nat ((int i + (- 18 + int k)) mod 37)"
    using k by (intro neighbors_nth) simp_all
  moreover have "rotate ((i + 19) mod 37) roulette_wheel ! k
                   = roulette_wheel ! (((i + 19) mod 37 + k) mod 37)"
    using k by (simp add: nth_rotate wheel_length)
  ultimately show "neighbors i 18 ! k = rotate ((i + 19) mod 37) roulette_wheel ! k"
    by (simp only: half_wheel_index)
qed

lemma half_wheel_last_index: "((i + 19) mod 37 + 36) mod 37 = (i + 18) mod (37::nat)"
proof -
  have "((i + 19) mod 37 + 36) mod 37 = (i + 19 + 36) mod 37"
    by (simp add: mod_add_left_eq)
  also have "i + 19 + 36 = i + 18 + 37" by simp
  also have "(i + 18 + 37) mod 37 = (i + 18) mod 37" by (rule mod_add_self2)
  finally show ?thesis .
qed

section \<open>Properties of the wheel resolver\<close>

text \<open>
  Claim C1. For every number \<open>n\<close> from 0 to 36 and every radius \<open>r \<ge> 0\<close>, the call
  \<open>roulette_neighbors([(n, r)])\<close> succeeds, and the list that it maps \<open>n\<close> to has
  length \<open>2 * r + 1\<close> and \<open>n\<close> as its middle element (position \<open>r\<close>); for radius 0
  the list is \<open>[n]\<close>.
\<close>

theorem neighbors_length_and_middle:
  assumes "0 \<le> n" and "n \<le> 36" and "0 \<le> r"
  shows "(\<exists>l. roulette_neighbors [(n, r)] = Inr [(n, l)] \<and>
              length l = nat (2 * r + 1) \<and> l ! nat r = n) \<and>
         roulette_neighbors [(n, 0)] = Inr [(n, [n])]"
proof -
  obtain i where i: "i < 37" "roulette_wheel ! i = n"
      "roulette_neighbors [(n, r)] = Inr [(n, neighbors i r)]"
    using resolve_single [OF assms] by blast
  obtain j where j: "j < 37" "roulette_wheel ! j = n"
      "roulette_neighbors [(n, 0)] = Inr [(n, neighbors j 0)]"
    using resolve_single [OF assms(1,2), of 0] by auto
  have "length (neighbors i r) = nat (2 * r + 1)"
    using assms(3) by (rule neighbors_length)
  moreover have "neighbors i r ! nat r = n"
    using neighbors_middle [OF assms(3) i(1)] i(2) by simp
  moreover have "roulette_neighbors [(n, 0)] = Inr [(n, [n])]"
    using j by (simp add: neighbors_zero)
  ultimately show ?thesis using i(3) by blast
qed

theorem neighbors_length_and_middle_witness:
  "(\<exists>l. roulette_neighbors [(17, 2)] = Inr [(17, l)] \<and>
        length l = nat (2 * 2 + 1) \<and> l ! nat 2 = 17) \<and>
   roulette_neighbors [(17, 0)] = Inr [(17, [17])]"
proof -
  have a: "(0::int) \<le> 17" and b: "(17::int) \<le> 36" and c: "(0::int) \<le> 2"
    by simp_all
  show ?thesis by (rule neighbors_length_and_middle [OF a b c])
qed


text \<open>
  Claim C3. Last write wins: when a number occurs in several pairs, the result maps it to
  the list of its last pair, which is the list that the resolver computes for that pair
  alone. In particular \<open>roulette_neighbors([(3, 1), (3, 0)])\<close> is \<open>{3: [3]}\<close>.
\<close>

theorem last_write_wins:
  assumes "roulette_neighbors (ps @ (n, r) # qs) = Inr m" and "n \<notin> fst ` set qs"
  shows "(\<exists>l. roulette_neighbors [(n, r)] = Inr [(n, l)] \<and> map_of m n = Some l) \<and>
         roulette_neighbors [(3, 1), (3, 0)] = Inr [(3, [3])]"
proof -
  obtain m1 where m1: "resolve_loop ps [] = Inr m1"
      and rest: "resolve_loop ((n, r) # qs) m1 = Inr m"
    using assms(1) unfolding roulette_neighbors_def resolve_loop_append
    by (auto split: sum.splits)
  from rest obtain i where ok: "n \<in> set roulette_wheel" "0 \<le> r"
      "index_of n roulette_wheel = Some i"
      and qs: "resolve_loop qs (AList.update n (neighbors i r) m1) = Inr m"
    by (auto split: if_splits option.splits)
  have "map_of m n = Some (neighbors i r)"
    using resolve_loop_other [OF qs assms(2)] by (simp add: update_conv')
  moreover have "roulette_neighbors [(n, r)] = Inr [(n, neighbors i r)]"
    using ok by (simp add: roulette_neighbors_def)
  moreover have "roulette_neighbors [(3, 1), (3, 0)] = Inr [(3, [3])]"
    by code_simp
  ultimately show ?thesis by blast
qed

theorem last_write_wins_witness:
  "roulette_neighbors ([(3, 2), (8, 1)] @ (3, 0) # [(8, 2)]) =
     Inr [(3, [3]), (8, [11, 30, 8, 23, 10])] \<and>
   3 \<notin> fst ` set [(8::int, 2::int)] \<and>
   (\<exists>l. roulette_neighbors [(3, 0)] = Inr [(3, l)] \<and>
        map_of [(3::int, [3]), (8, [11, 30, 8, 23, 10])] 3 = Some l)"
proof -
  have h: "roulette_neighbors ([(3, 2), (8, 1)] @ (3, 0) # [(8, 2)]) =
             Inr [(3, [3]), (8, [11, 30, 8, 23, 10])]"
    by code_simp
  have k: "(3::int) \<notin> fst ` set [(8::int, 2::int)]" by simp
  show ?thesis using last_write_wins [OF h k] h k by blast
qed

text \<open>
  Claim C6. The resolver fails with \<open>NumberOutOfRange\<close> at a pair whose number is not on
  the wheel, and with \<open>NegativeNeighborCount\<close> at a pair whose number is on the wheel and
  whose radius is negative (the number is tested first). The first such pair, after any
  number of valid pairs \<open>ps\<close> and whatever follows it, ends the call with the error alone:
  the result is \<open>Inl\<close>, so nothing of the mapping built for \<open>ps\<close> is returned.
\<close>

theorem resolver_errors:
  assumes "\<forall>p\<in>set ps. fst p \<in> set roulette_wheel \<and> 0 \<le> snd p"
    and "bad \<notin> set roulette_wheel"
    and "good \<in> set roulette_wheel" and "c < 0"
  shows "roulette_neighbors (ps @ (bad, r) # qs) = Inl (NumberOutOfRange bad) \<and>
         roulette_neighbors (ps @ (good, c) # qs) = Inl (NegativeNeighborCount good) \<and>
         roulette_neighbors [(99, 1)] = Inl (NumberOutOfRange 99) \<and>
         roulette_neighbors [(5, - 1)] = Inl (NegativeNeighborCount 5)"
proof -
  obtain m where m: "resolve_loop ps [] = Inr m"
    using resolve_loop_valid [OF assms(1)] by blast
  have "roulette_neighbors (ps @ (bad, r) # qs) = Inl (NumberOutOfRange bad)"
    using m assms(2) by (simp add: roulette_neighbors_def resolve_loop_append)
  moreover have "roulette_neighbors (ps @ (good, c) # qs) = Inl (NegativeNeighborCount good)"
    using m assms(3,4) by (simp add: roulette_neighbors_def resolve_loop_append)
  moreover have "roulette_neighbors [(99, 1)] = Inl (NumberOutOfRange 99)" by code_simp
  moreover have "roulette_neighbors [(5, - 1)] = Inl (NegativeNeighborCount 5)" by code_simp
  ultimately show ?thesis by blast
qed

theorem resolver_errors_witness:
  "roulette_neighbors ([(3, 1)] @ (99, 1) # [(5, 2)]) = Inl (NumberOutOfRange 99) \<and>
   roulette_neighbors ([(3, 1)] @ (5, - 1) # [(5, 2)]) = Inl (NegativeNeighborCount 5)"
proof -
  have a: "\<forall>p\<in>set [(3::int, 1::int)]. fst p \<in> set roulette_wheel \<and> 0 \<le> snd p"
    by (simp add: wheel_set)
  have b: "(99::int) \<notin> set roulette_wheel" by (simp add: wheel_set)
  have c: "(5::int) \<in> set roulette_wheel" by (simp add: wheel_set)
  have d: "(- 1::int) < 0" by simp
  show ?thesis using resolver_errors [OF a b c d, of 1 "[(5, 2)]"] by blast
qed

text \<open>
  Claim C7. The wheel has exactly 37 entries and holds every integer from 0 to 36 exactly
  once, so that being on the wheel is the same as \<open>0 \<le> n \<le> 36\<close>. The wheel is a
  constant: no operation takes it as state or returns a changed one, as the source only
  reads its list (\<open>in\<close>, \<open>index\<close>, subscript, \<open>len\<close>).
\<close>

theorem wheel_invariant:
  "length roulette_wheel = 37 \<and> total_numbers = 37 \<and> distinct roulette_wheel \<and>
   set roulette_wheel = {0..36} \<and>
   (\<forall>n. (n \<in> set roulette_wheel) = (0 \<le> n \<and> n \<le> 36))"
  by (simp add: wheel_length total_numbers_37 wheel_distinct wheel_set)

text \<open>
  Claim C8. For every number \<open>n\<close> from 0 to 36, radius 18 gives a list of length 37 that
  holds every wheel number exactly once, with \<open>n\<close> itself in the middle (position 18).
  With \<open>i\<close> the position of \<open>n\<close> on the wheel, the list is the wheel rotated so that it
  begins 19 places after \<open>i\<close> (which is 18 places before \<open>i\<close>) and ends 18 places after
  \<open>i\<close>: the two pockets opposite \<open>n\<close>, which are next to each other on the wheel.
\<close>

theorem half_wheel_radius:
  assumes "0 \<le> n" and "n \<le> 36"
  shows "\<exists>i l. index_of n roulette_wheel = Some i \<and> i < 37 \<and> roulette_wheel ! i = n \<and>
           roulette_neighbors [(n, 18)] = Inr [(n, l)] \<and>
           length l = 37 \<and> distinct l \<and> set l = set roulette_wheel \<and> set l = {0..36} \<and>
           l ! 18 = n \<and>
           l = rotate ((i + 19) mod 37) roulette_wheel \<and>
           hd l = roulette_wheel ! ((i + 19) mod 37) \<and>
           last l = roulette_wheel ! ((i + 18) mod 37)"
proof -
  obtain i where i: "index_of n roulette_wheel = Some i" "i < 37"
      "roulette_wheel ! i = n"
      "roulette_neighbors [(n, 18)] = Inr [(n, neighbors i 18)]"
    using resolve_single [OF assms, of 18] by auto
  define l where "l = neighbors i 18"
  have rot: "l = rotate ((i + 19) mod 37) roulette_wheel"
    unfolding l_def by (rule neighbors_half_wheel)
  have len: "length l = 37" by (simp add: rot wheel_length)
  then have ne: "l \<noteq> []" by auto
  have d: "distinct l" by (simp add: rot wheel_distinct)
  have s: "set l = set roulette_wheel" by (simp add: rot)
  then have s': "set l = {0..36}" by (simp only: wheel_set)
  have c: "l ! 18 = n"
  proof -
    have "neighbors i 18 ! nat 18 = roulette_wheel ! i"
      using i(2) by (intro neighbors_middle) simp_all
    then show ?thesis by (simp add: l_def i(3))
  qed
  have h: "hd l = roulette_wheel ! ((i + 19) mod 37)"
  proof -
    have "hd l = l ! 0" using ne by (rule hd_conv_nth)
    also have "\<dots> = roulette_wheel ! ((i + 19) mod 37)"
      unfolding rot by (simp add: nth_rotate wheel_length)
    finally show ?thesis .
  qed
  have e: "last l = roulette_wheel ! ((i + 18) mod 37)"
  proof -
    have "last l = l ! 36" using ne len by (simp add: last_conv_nth)
    also have "\<dots> = roulette_wheel ! (((i + 19) mod 37 + 36) mod 37)"
      unfolding rot by (simp add: nth_rotate wheel_length)
    finally show ?thesis by (simp only: half_wheel_last_index)
  qed
  from i(1,2,3) i(4) [folded l_def] len d s s' c rot h e show ?thesis by blast
qed

theorem half_wheel_radius_witness:
  "(\<exists>i l. index_of 17 roulette_wheel = Some i \<and> i < 37 \<and> roulette_wheel ! i = 17 \<and>
           roulette_neighbors [(17, 18)] = Inr [(17, l)] \<and>
           length l = 37 \<and> distinct l \<and> set l = set roulette_wheel \<and> set l = {0..36} \<and>
           l ! 18 = 17 \<and>
           l = rotate ((i + 19) mod 37) roulette_wheel \<and>
           hd l = roulette_wheel ! ((i + 19) mod 37) \<and>
           last l = roulette_wheel ! ((i + 18) mod 37)) \<and>
   index_of 17 roulette_wheel = Some 8 \<and>
   roulette_wheel ! ((8 + 19) mod 37) = 9 \<and> roulette_wheel ! ((8 + 18) mod 37) = 31"
proof -
  have a: "(0::int) \<le> 17" by simp
  have b: "(17::int) \<le> 36" by simp
  have "index_of 17 roulette_wheel = Some 8 \<and>
        roulette_wheel ! ((8 + 19) mod 37) = 9 \<and> roulette_wheel ! ((8 + 18) mod 37) = 31"
    by code_simp
  with half_wheel_radius [OF a b] show ?thesis by (rule conjI)
qed

text \<open>
  Claim C10. When the resolver succeeds, the keys of the mapping are exactly the numbers
  of the input pairs (each once); on the empty list it returns the empty mapping.
\<close>

theorem result_keys:
  assumes "roulette_neighbors ps = Inr m"
  shows "fst ` set m = fst ` set ps \<and> distinct (map fst m) \<and>
         roulette_neighbors [] = Inr []"
  using resolve_loop_keys [of ps "[]" m] resolve_loop_distinct [of ps "[]" m] assms
  by (simp add: roulette_neighbors_def)

theorem result_keys_witness:
  "roulette_neighbors [(3, 1), (8, 0), (3, 0)] = Inr [(3, [3]), (8, [8])] \<and>
   fst ` set [(3::int, [3::int]), (8, [8])] = fst ` set [(3::int, 1::int), (8, 0), (3, 0)]"
proof -
  have h: "roulette_neighbors [(3, 1), (8, 0), (3, 0)] = Inr [(3, [3]), (8, [8])]"
    by code_simp
  show ?thesis using result_keys [OF h] h by blast
qed

section \<open>Facts about the parser loop\<close>

lemma parse_loop_append:
  "parse_loop (xs @ ys) d acc =
     (case parse_loop xs d acc of Inl e \<Rightarrow> Inl e | Inr a \<Rightarrow> parse_loop ys d a)"
  by (induction xs arbitrary: acc) (auto split: sum.splits)

lemma parse_loop_Inr:
  "parse_loop xs d acc = Inr r \<Longrightarrow>
     \<exists>ps. r = acc @ ps \<and> map (\<lambda>pair. parse_segment pair d) xs = map Inr ps"
proof (induction xs arbitrary: acc)
  case Nil
  then show ?case by simp
next
  case (Cons x xs)
  then obtain p where p: "parse_segment x d = Inr p"
      and rest: "parse_loop xs d (acc @ [p]) = Inr r"
    by (auto split: sum.splits)
  from Cons.IH [OF rest] obtain ps where
    "r = (acc @ [p]) @ ps" "map (\<lambda>pair. parse_segment pair d) xs = map Inr ps"
    by blast
  then have "r = acc @ (p # ps) \<and>
             map (\<lambda>pair. parse_segment pair d) (x # xs) = map Inr (p # ps)"
    using p by simp
  then show ?case by blast
qed

lemma parse_loop_all_ok:
  "\<forall>j<length xs. \<exists>p. parse_segment (xs ! j) d = Inr p \<Longrightarrow> \<exists>r. parse_loop xs d acc = Inr r"
proof (induction xs arbitrary: acc)
  case Nil
  then show ?case by simp
next
  case (Cons x xs)
  from Cons.prems have "\<exists>p. parse_segment ((x # xs) ! 0) d = Inr p" by blast
  then obtain p where p: "parse_segment x d = Inr p" by auto
  have "\<forall>j<length xs. \<exists>p. parse_segment (xs ! j) d = Inr p"
  proof (intro allI impI)
    fix j assume "j < length xs"
    then have "Suc j < length (x # xs)" by simp
    with Cons.prems have "\<exists>p. parse_segment ((x # xs) ! Suc j) d = Inr p" by blast
    then show "\<exists>p. parse_segment (xs ! j) d = Inr p" by simp
  qed
  from Cons.IH [OF this] show ?case using p by simp
qed

lemma parse_loop_first_error:
  assumes "i < length xs"
    and "\<forall>j<i. \<exists>p. parse_segment (xs ! j) d = Inr p"
    and "parse_segment (xs ! i) d = Inl e"
  shows "parse_loop xs d acc = Inl e"
proof -
  have xs: "xs = take i xs @ (xs ! i) # drop (Suc i) xs"
    using assms(1) by (rule id_take_nth_drop)
  have "\<forall>j<length (take i xs). \<exists>p. parse_segment (take i xs ! j) d = Inr p"
    using assms(1,2) by simp
  then obtain r where r: "parse_loop (take i xs) d acc = Inr r"
    using parse_loop_all_ok by blast
  have "parse_loop (take i xs @ (xs ! i) # drop (Suc i) xs) d acc = Inl e"
    using r assms(3) by (simp add: parse_loop_append)
  with xs show ?thesis by simp
qed

lemma parse_input_segments:
  assumes "parse_input s d = Inr ps"
  shows "map (\<lambda>pair. parse_segment pair d) (split_on CHR '','' s) = map Inr ps"
  using parse_loop_Inr [of "split_on CHR '','' s" d "[]" ps] assms
  by (auto simp: parse_input_def)


lemma parser_messages_distinct:
  "error_message (InvalidSegmentFormat a) \<noteq> error_message (InvalidPairTokens b) \<and>
   error_message (InvalidSegmentFormat a) \<noteq> error_message (InvalidSingleToken c) \<and>
   error_message (InvalidPairTokens b) \<noteq> error_message (InvalidSingleToken c)"
  by simp

section \<open>Properties of the input parser\<close>

text \<open>
  Claim C4. \<open>parse_input\<close> returns one pair for each comma-separated segment, in the
  order of the segments, without removing duplicates and without sorting: the list of
  pairs is the list of the results of the segments. A segment of one token gets
  \<open>default_neighbors\<close> as its radius. In particular \<open>parse_input("3 3, 8 1, 12", 1)\<close> is
  \<open>[(3, 3), (8, 1), (12, 1)]\<close>.
\<close>

theorem parse_input_order:
  assumes "parse_input input_str default_neighbors = Inr ps"
  shows "map (\<lambda>pair. parse_segment pair default_neighbors) (split_on CHR '','' input_str)
           = map Inr ps \<and>
         length ps = length (split_on CHR '','' input_str) \<and>
         (\<forall>i<length ps.
            length (split_ws (strip (split_on CHR '','' input_str ! i))) = 1 \<longrightarrow>
            snd (ps ! i) = default_neighbors) \<and>
         parse_input ''3 3, 8 1, 12'' 1 = Inr [(3, 3), (8, 1), (12, 1)]"
proof -
  let ?segs = "split_on CHR '','' input_str"
  have m: "map (\<lambda>pair. parse_segment pair default_neighbors) ?segs = map Inr ps"
    using assms by (rule parse_input_segments)
  have len: "length ps = length ?segs"
    using map_eq_imp_length_eq [OF m] by simp
  have one: "snd (ps ! i) = default_neighbors"
    if "i < length ps" and "length (split_ws (strip (?segs ! i))) = 1" for i
  proof -
    have "map (\<lambda>pair. parse_segment pair default_neighbors) ?segs ! i = map Inr ps ! i"
      using m by simp
    then have "parse_segment (?segs ! i) default_neighbors = Inr (ps ! i)"
      using that(1) len by simp
    moreover obtain a b where ab: "ps ! i = (a, b)" by (cases "ps ! i")
    ultimately have "b = default_neighbors"
      using that(2) by (auto simp: parse_segment_def split: option.splits)
    with ab show ?thesis by simp
  qed
  have "parse_input ''3 3, 8 1, 12'' 1 = Inr [(3, 3), (8, 1), (12, 1)]"
    by code_simp
  with m len one show ?thesis by blast
qed

theorem parse_input_order_witness:
  "parse_input ''8, 3 2,8'' 7 = Inr [(8, 7), (3, 2), (8, 7)] \<and>
   map (\<lambda>pair. parse_segment pair 7) (split_on CHR '','' ''8, 3 2,8'')
     = map Inr [(8, 7), (3, 2), (8, 7)] \<and>
   length (split_ws (strip (split_on CHR '','' ''8, 3 2,8'' ! 2))) = 1 \<and>
   snd ([(8::int, 7::int), (3, 2), (8, 7)] ! 2) = 7"
proof -
  have h: "parse_input ''8, 3 2,8'' 7 = Inr [(8, 7), (3, 2), (8, 7)]"
    by code_simp
  have one: "length (split_ws (strip (split_on CHR '','' ''8, 3 2,8'' ! 2))) = 1"
    by code_simp
  have i: "2 < length [(8::int, 7::int), (3, 2), (8, 7)]" by simp
  note t = parse_input_order [OF h]
  have m: "map (\<lambda>pair. parse_segment pair 7) (split_on CHR '','' ''8, 3 2,8'')
             = map Inr [(8, 7), (3, 2), (8, 7)]"
    by (rule conjunct1 [OF t])
  have all: "\<forall>i<length [(8::int, 7::int), (3, 2), (8, 7)].
           length (split_ws (strip (split_on CHR '','' ''8, 3 2,8'' ! i))) = 1 \<longrightarrow>
           snd ([(8::int, 7::int), (3, 2), (8, 7)] ! i) = 7"
    by (rule conjunct1 [OF conjunct2 [OF conjunct2 [OF t]]])
  have d: "snd ([(8::int, 7::int), (3, 2), (8, 7)] ! 2) = 7"
    by (rule all [rule_format, OF i one])
  from h m one d show ?thesis by (intro conjI)
qed

text \<open>
  Claim C5. Each kind of malformed segment has its own error, which carries the segment
  as it stands in the input. At the first segment that does not parse (all segments
  before it parse): a token count other than 1 and 2 gives \<open>InvalidSegmentFormat\<close>; two
  tokens of which one is not an integer give \<open>InvalidPairTokens\<close>; one token that is not
  an integer gives \<open>InvalidSingleToken\<close>. In particular \<open>parse_input("abc", 1)\<close> fails
  with \<open>InvalidSingleToken\<close> and \<open>parse_input("3 3 3", 1)\<close> with
  \<open>InvalidSegmentFormat\<close>, their messages quote the segment, and the messages of the three kinds differ
  whatever the segments are.
\<close>

theorem parser_errors:
  assumes "i < length (split_on CHR '','' s)"
    and "\<forall>j<i. \<exists>p. parse_segment (split_on CHR '','' s ! j) d = Inr p"
    and "pair = split_on CHR '','' s ! i"
    and "parts = split_ws (strip pair)"
  shows "(length parts \<noteq> 1 \<and> length parts \<noteq> 2 \<longrightarrow>
            parse_input s d = Inl (InvalidSegmentFormat pair)) \<and>
         (length parts = 2 \<and>
            (py_int (strip (parts ! 0)) = None \<or> py_int (strip (parts ! 1)) = None) \<longrightarrow>
            parse_input s d = Inl (InvalidPairTokens pair)) \<and>
         (length parts = 1 \<and> py_int (strip (parts ! 0)) = None \<longrightarrow>
            parse_input s d = Inl (InvalidSingleToken pair)) \<and>
         parse_input ''abc'' 1 = Inl (InvalidSingleToken ''abc'') \<and>
         parse_input ''3 3 3'' 1 = Inl (InvalidSegmentFormat ''3 3 3'') \<and>
         error_message (InvalidSingleToken ''abc'')
           = ''Invalid number format for 'abc'. Ensure it's an integer.'' \<and>
         error_message (InvalidSegmentFormat ''3 3 3'')
           = ''Invalid format for '3 3 3'. Use 'number count' or 'number'.'' \<and>
         error_message (InvalidSegmentFormat a) \<noteq> error_message (InvalidPairTokens b) \<and>
         error_message (InvalidSegmentFormat a) \<noteq> error_message (InvalidSingleToken c) \<and>
         error_message (InvalidPairTokens b) \<noteq> error_message (InvalidSingleToken c)"
proof -
  have first: "parse_input s d = Inl e" if "parse_segment pair d = Inl e" for e
    unfolding parse_input_def
    using assms(1,2) that [unfolded assms(3)] by (rule parse_loop_first_error)
  have a: "parse_input s d = Inl (InvalidSegmentFormat pair)"
    if "length parts \<noteq> 1" "length parts \<noteq> 2"
    using that assms(4) by (intro first) (simp add: parse_segment_def)
  have b: "parse_input s d = Inl (InvalidPairTokens pair)"
    if "length parts = 2"
      "py_int (strip (parts ! 0)) = None \<or> py_int (strip (parts ! 1)) = None"
    using that assms(4)
    by (intro first) (auto simp: parse_segment_def Let_def split: option.splits)
  have c: "parse_input s d = Inl (InvalidSingleToken pair)"
    if "length parts = 1" "py_int (strip (parts ! 0)) = None"
    using that assms(4) by (intro first) (simp add: parse_segment_def)
  have e1: "parse_input ''abc'' 1 = Inl (InvalidSingleToken ''abc'')" by code_simp
  have e2: "parse_input ''3 3 3'' 1 = Inl (InvalidSegmentFormat ''3 3 3'')" by code_simp
  have e3: "error_message (InvalidSingleToken ''abc'')
           = ''Invalid number format for 'abc'. Ensure it's an integer.''" by code_simp
  have e4: "error_message (InvalidSegmentFormat ''3 3 3'')
           = ''Invalid format for '3 3 3'. Use 'number count' or 'number'.''" by code_simp
  note e5 = parser_messages_distinct [of a b c]
  from a b c e1 e2 e3 e4 e5 show ?thesis by blast
qed

theorem parser_errors_witness:
  "parse_input ''5,3 3 3,x'' 1 = Inl (InvalidSegmentFormat ''3 3 3'') \<and>
   parse_input ''5, 3 x ,y'' 1 = Inl (InvalidPairTokens '' 3 x '') \<and>
   parse_input ''5, abc'' 1 = Inl (InvalidSingleToken '' abc'')"
proof -
  have ok: "\<forall>j<1. \<exists>p. parse_segment (split_on CHR '','' s ! j) 1 = Inr p"
    if "parse_segment (split_on CHR '','' s ! 0) 1 = Inr (5, 1)" for s
    using that by simp
  have "parse_input ''5,3 3 3,x'' 1 = Inl (InvalidSegmentFormat ''3 3 3'')"
  proof -
    have i: "1 < length (split_on CHR '','' ''5,3 3 3,x'')" by code_simp
    have p: "parse_segment (split_on CHR '','' ''5,3 3 3,x'' ! 0) 1 = Inr (5, 1)"
      by code_simp
    have pair: "''3 3 3'' = split_on CHR '','' ''5,3 3 3,x'' ! 1" by code_simp
    have parts: "[''3'', ''3'', ''3''] = split_ws (strip ''3 3 3'')" by code_simp
    from parser_errors [OF i ok [OF p] pair parts] show ?thesis by simp
  qed
  moreover have "parse_input ''5, 3 x ,y'' 1 = Inl (InvalidPairTokens '' 3 x '')"
  proof -
    have i: "1 < length (split_on CHR '','' ''5, 3 x ,y'')" by code_simp
    have p: "parse_segment (split_on CHR '','' ''5, 3 x ,y'' ! 0) 1 = Inr (5, 1)"
      by code_simp
    have pair: "'' 3 x '' = split_on CHR '','' ''5, 3 x ,y'' ! 1" by code_simp
    have parts: "[''3'', ''x''] = split_ws (strip '' 3 x '')" by code_simp
    have bad: "py_int (strip ([''3'', ''x''] ! 1)) = None" by code_simp
    from parser_errors [OF i ok [OF p] pair parts] bad show ?thesis by simp
  qed
  moreover have "parse_input ''5, abc'' 1 = Inl (InvalidSingleToken '' abc'')"
  proof -
    have i: "1 < length (split_on CHR '','' ''5, abc'')" by code_simp
    have p: "parse_segment (split_on CHR '','' ''5, abc'' ! 0) 1 = Inr (5, 1)"
      by code_simp
    have pair: "'' abc'' = split_on CHR '','' ''5, abc'' ! 1" by code_simp
    have parts: "[''abc''] = split_ws (strip '' abc'')" by code_simp
    have bad: "py_int (strip ([''abc''] ! 0)) = None" by code_simp
    from parser_errors [OF i ok [OF p] pair parts] bad show ?thesis by simp
  qed
  ultimately show ?thesis by blast
qed




end
